theory Spec2Isabelle
  imports Main
begin

section \<open>Extended HOG feature extractor: index tables and patch sampling\<close>

text \<open>
  The development follows \<^verbatim>\<open>ExtendedHogFeatureExtractor.hpp\<close>. The header holds the
  body of one member function, the template \<^verbatim>\<open>createPatchData\<close>; every other member
  is declared there and defined elsewhere. \<^verbatim>\<open>createPatchData\<close> is embedded from its
  body. \<^verbatim>\<open>createIndexLut\<close>, which is only declared, is embedded from its description
  in the specification, and says so.
\<close>

subsection \<open>Index look-up table\<close>

text \<open>
  Modelled from the spec: the body of \<^verbatim>\<open>createIndexLut\<close> (the specification's
  \<^verbatim>\<open>buildAxisLUT\<close>), which the header only declares as
  \<^verbatim>\<open>std::vector<int> createIndexLut(int imageSize, int patchStart, int patchSize) const\<close>.
  The specification describes it over the integers: for each output position \<open>k\<close> in
  \<open>[0, patchSize)\<close> the raw index \<open>i = patchStart + k\<close> is reflected at the borders,
  \<^verbatim>\<open>while i < 0: i = -i - 1\<close> and \<^verbatim>\<open>while i >= imageSize: i = 2*imageSize - i - 1\<close>,
  and this is repeated until \<open>i\<close> is in range. Each of the three loops is a function in
  the option monad, where \<open>None\<close> stands for a loop that does not return.
\<close>

partial_function (option) reflectBelow :: "int \<Rightarrow> int option" where
  "reflectBelow i = (if i < 0 then reflectBelow (- i - 1) else Some i)"

partial_function (option) reflectAbove :: "int \<Rightarrow> int \<Rightarrow> int option" where
  "reflectAbove imageSize i =
     (if i \<ge> imageSize then reflectAbove imageSize (2 * imageSize - i - 1) else Some i)"

partial_function (option) reflectIndex :: "int \<Rightarrow> int \<Rightarrow> int option" where
  "reflectIndex imageSize i =
     (if 0 \<le> i \<and> i < imageSize then Some i
      else Option.bind (reflectBelow i)
             (\<lambda>j. Option.bind (reflectAbove imageSize j) (reflectIndex imageSize)))"

declare reflectBelow.simps [code] reflectAbove.simps [code] reflectIndex.simps [code]

text \<open>
  The loop over the output positions appends one reflected index per position to the
  table, starting from the empty table.
\<close>

function lutLoop :: "int \<Rightarrow> int \<Rightarrow> int \<Rightarrow> int \<Rightarrow> int list \<Rightarrow> int list option" where
  "lutLoop imageSize patchStart patchSize k lut =
     (if k < patchSize then
        (case reflectIndex imageSize (patchStart + k) of
           None \<Rightarrow> None
         | Some i \<Rightarrow> lutLoop imageSize patchStart patchSize (k + 1) (lut @ [i]))
      else Some lut)"
  by pat_completeness auto
termination
  by (relation "measure (\<lambda>(imageSize, patchStart, patchSize, k, lut). nat (patchSize - k))") auto

declare lutLoop.simps [simp del]

definition createIndexLut :: "int \<Rightarrow> int \<Rightarrow> int \<Rightarrow> int list option" where
  "createIndexLut imageSize patchStart patchSize = lutLoop imageSize patchStart patchSize 0 []"

subsection \<open>Images, the store and patch sampling\<close>

text \<open>
  \<^verbatim>\<open>createPatchData\<close> reads an image through row pointers and writes a newly
  constructed matrix. Reading a row or a column outside the image has no defined
  behaviour in the source (\<^verbatim>\<open>cv::Mat::ptr\<close> checks the row in debug builds only,
  and \<^verbatim>\<open>imageRow[...]\<close> is plain pointer arithmetic): the source has no check and
  no error return there, and reads whatever lies at that offset. The embedding marks
  such a read by the value \<open>IndexOutOfRange\<close>, which stands for "not defined", not
  for a result of the program. Every statement below about what a call returns
  therefore assumes that all entries of the vectors are valid indices; only the
  statement about what a call leaves unwritten covers the other calls too.
\<close>

datatype error = IndexOutOfRange

type_synonym addr = nat

text \<open>
  The header of a \<^verbatim>\<open>cv::Mat\<close>: its dimensions, its element type code
  (\<^verbatim>\<open>type()\<close>) and the address of its pixel buffer. Several headers may share one
  buffer.
\<close>

record Mat =
  rows :: nat
  cols :: nat
  mtype :: int
  dataPtr :: addr

text \<open>
  The store holds the pixel buffers, indexed by address, row and column, over an
  element type \<open>'a\<close> (the template parameter \<^verbatim>\<open>T\<close>); \<open>brk\<close> is the first
  address that no buffer occupies yet, so a buffer is allocated iff its address is
  below \<open>brk\<close>. The two index vectors are passed to \<^verbatim>\<open>createPatchData\<close> by
  non-const reference, so they are components of the store as well: the function
  could write them.
\<close>

record 'a store =
  heap :: "addr \<Rightarrow> nat \<Rightarrow> nat \<Rightarrow> 'a"
  brk :: addr
  rowIndices :: "int list"
  colIndices :: "int list"

text \<open>
  \<^verbatim>\<open>cv::Mat patch(rows, cols, type)\<close> allocates a buffer of its own at the next
  free address; its elements are whatever the store holds there. The lengths of the
  vectors are taken as they are: the narrowing of \<^verbatim>\<open>size_t\<close> to \<^verbatim>\<open>int\<close> in the
  constructor is not part of the embedding.
\<close>

definition newMat :: "nat \<Rightarrow> nat \<Rightarrow> int \<Rightarrow> 'a store \<Rightarrow> Mat \<times> 'a store" where
  "newMat r c t s = (\<lparr>rows = r, cols = c, mtype = t, dataPtr = brk s\<rparr>, s\<lparr>brk := Suc (brk s)\<rparr>)"

text \<open>\<^verbatim>\<open>m.ptr<T>(y)\<close>: the pointer to row \<open>y\<close> of the buffer of \<open>m\<close>.\<close>

definition ptr :: "Mat \<Rightarrow> int \<Rightarrow> error + addr \<times> nat" where
  "ptr m y = (if 0 \<le> y \<and> y < int (rows m) then Inr (dataPtr m, nat y) else Inl IndexOutOfRange)"

text \<open>\<^verbatim>\<open>row[x]\<close> as a value, for a row pointer into the matrix \<open>m\<close>.\<close>

definition readAt :: "Mat \<Rightarrow> addr \<times> nat \<Rightarrow> int \<Rightarrow> 'a store \<Rightarrow> error + 'a" where
  "readAt m row x s =
     (if 0 \<le> x \<and> x < int (cols m) then Inr (heap s (fst row) (snd row) (nat x))
      else Inl IndexOutOfRange)"

text \<open>\<^verbatim>\<open>row[x] = v\<close>.\<close>

definition writeAt :: "addr \<times> nat \<Rightarrow> nat \<Rightarrow> 'a \<Rightarrow> 'a store \<Rightarrow> 'a store" where
  "writeAt row x v s =
     s\<lparr>heap := (heap s)(fst row := (heap s (fst row))(snd row := (heap s (fst row) (snd row))(x := v)))\<rparr>"

text \<open>
  The inner loop,
  \<^verbatim>\<open>for (size_t patchX = 0; patchX < colIndices.size(); ++patchX)
    patchRow[patchX] = imageRow[colIndices[patchX]];\<close>
  (the parameter \<^verbatim>\<open>image\<close> is written \<open>img\<close> throughout).
\<close>

function colLoop ::
  "Mat \<Rightarrow> addr \<times> nat \<Rightarrow> addr \<times> nat \<Rightarrow> nat \<Rightarrow> 'a store \<Rightarrow> (error + unit) \<times> 'a store" where
  "colLoop img patchRow imageRow patchX s =
     (if patchX < length (colIndices s) then
        (case readAt img imageRow (colIndices s ! patchX) s of
           Inl e \<Rightarrow> (Inl e, s)
         | Inr v \<Rightarrow> colLoop img patchRow imageRow (Suc patchX) (writeAt patchRow patchX v s))
      else (Inr (), s))"
  by pat_completeness auto
termination
  by (relation "measure (\<lambda>(img, patchRow, imageRow, patchX, s). length (colIndices s) - patchX)")
     (auto simp: writeAt_def)

declare colLoop.simps [simp del]

text \<open>
  The outer loop,
  \<^verbatim>\<open>for (size_t patchY = 0; patchY < rowIndices.size(); ++patchY) {
    T* patchRow = patch.ptr<T>(patchY);
    const T* imageRow = image.ptr<T>(rowIndices[patchY]);
    ... inner loop ...
  }\<close>
  Its bound is read from the store in every round, as the source calls
  \<^verbatim>\<open>rowIndices.size()\<close> in every round; the termination proof shows that the inner
  loop leaves the vector as it is.
\<close>

function rowLoop :: "Mat \<Rightarrow> Mat \<Rightarrow> nat \<Rightarrow> 'a store \<Rightarrow> (error + unit) \<times> 'a store" where
  "rowLoop img patch patchY s =
     (if patchY < length (rowIndices s) then
        (case ptr patch (int patchY) of
           Inl e \<Rightarrow> (Inl e, s)
         | Inr patchRow \<Rightarrow>
             (case ptr img (rowIndices s ! patchY) of
                Inl e \<Rightarrow> (Inl e, s)
              | Inr imageRow \<Rightarrow>
                  (case colLoop img patchRow imageRow 0 s of
                     (Inl e, s') \<Rightarrow> (Inl e, s')
                   | (Inr u, s') \<Rightarrow> rowLoop img patch (Suc patchY) s')))
      else (Inr (), s))"
  by pat_completeness auto
termination
proof (relation "measure (\<lambda>(img, patch, patchY, s). length (rowIndices s) - patchY)")
  show "wf (measure (\<lambda>(img, patch, patchY, s::'a store). length (rowIndices s) - patchY))"
    by simp
next
  fix img patch :: Mat and patchY :: nat and s s' :: "'a store"
    and patchRow imageRow :: "addr \<times> nat" and r :: "error + unit" and u :: unit
  assume y: "patchY < length (rowIndices s)"
    and "ptr patch (int patchY) = Inr patchRow"
    and "ptr img (rowIndices s ! patchY) = Inr imageRow"
    and c: "(r, s') = colLoop img patchRow imageRow 0 s"
    and "r = Inr u"
  have keep: "rowIndices (snd (colLoop img patchRow imageRow x t)) = rowIndices t"
    for x and t :: "'a store"
  proof (induction img patchRow imageRow x t rule: colLoop.induct)
    case (1 img patchRow imageRow patchX s)
    then show ?case
      by (subst colLoop.simps) (auto simp: writeAt_def split: sum.splits)
  qed
  from c have "s' = snd (colLoop img patchRow imageRow 0 s)"
    by (metis snd_conv)
  then have "rowIndices s' = rowIndices s" by (simp add: keep)
  with y show "((img, patch, Suc patchY, s'), img, patch, patchY, s)
      \<in> measure (\<lambda>(img, patch, patchY, s). length (rowIndices s) - patchY)"
    by simp
qed

declare rowLoop.simps [simp del]

text \<open>
  \<^verbatim>\<open>createPatchData<T>(image, rowIndices, colIndices)\<close>: the new matrix, then the two
  loops, then the matrix is returned. The result is paired with the store the call
  leaves behind, also when a read fails.
\<close>

definition createPatchData :: "Mat \<Rightarrow> 'a store \<Rightarrow> (error + Mat) \<times> 'a store" where
  "createPatchData img s =
     (case newMat (length (rowIndices s)) (length (colIndices s)) (mtype img) s of
        (patch, s1) \<Rightarrow>
          (case rowLoop img patch 0 s1 of
             (Inl e, s2) \<Rightarrow> (Inl e, s2)
           | (Inr u, s2) \<Rightarrow> (Inr patch, s2)))"

subsection \<open>Observations on matrices\<close>

text \<open>
  The elements of a matrix, row by row, and what a caller can observe of the result
  of \<^verbatim>\<open>createPatchData\<close> apart from the address of the buffer: the error, or the
  dimensions, the element type and the elements of the patch.
\<close>

definition matContents :: "'a store \<Rightarrow> Mat \<Rightarrow> 'a list list" where
  "matContents s m = map (\<lambda>y. map (\<lambda>x. heap s (dataPtr m) y x) [0..<cols m]) [0..<rows m]"

definition patchResult :: "(error + Mat) \<times> 'a store \<Rightarrow> error + nat \<times> nat \<times> int \<times> 'a list list" where
  "patchResult r =
     (case r of
        (Inl e, s) \<Rightarrow> Inl e
      | (Inr patch, s) \<Rightarrow> Inr (rows patch, cols patch, mtype patch, matContents s patch))"

text \<open>Every entry of a vector is an index below \<open>n\<close>.\<close>

definition validIndices :: "nat \<Rightarrow> int list \<Rightarrow> bool" where
  "validIndices n xs = (\<forall>k. k < length xs \<longrightarrow> 0 \<le> xs ! k \<and> xs ! k < int n)"

subsection \<open>Example values\<close>

text \<open>
  A 2 by 3 image whose element at row \<open>y\<close> and column \<open>x\<close> is \<open>10 * y + x\<close>, with
  index vectors as border reflection produces them (repeated entries); and a second
  image at another address that differs from the first in column 0 only, which the
  vectors do not select.
\<close>

definition exampleImage :: Mat where
  "exampleImage = \<lparr>rows = 2, cols = 3, mtype = 0, dataPtr = 0\<rparr>"

definition exampleStore :: "nat store" where
  "exampleStore = \<lparr>heap = (\<lambda>a y x. if a = 0 then 10 * y + x else 0), brk = 1,
                     rowIndices = [1, 0, 0, 1], colIndices = [2, 2, 1]\<rparr>"

definition otherImage :: Mat where
  "otherImage = \<lparr>rows = 2, cols = 3, mtype = 0, dataPtr = 1\<rparr>"

definition otherStore :: "nat store" where
  "otherStore = \<lparr>heap = (\<lambda>a y x. if a = 1 \<and> 0 < x then 10 * y + x else 77), brk = 2,
                   rowIndices = [1, 0, 0, 1], colIndices = [2, 2, 1]\<rparr>"

subsection \<open>Auxiliary notions for the proofs\<close>

text \<open>
  The closed form of the reflection, used in the proofs only: the index is folded into
  one period of length \<open>2 * n\<close>, whose second half runs backwards.
\<close>

definition mirror :: "int \<Rightarrow> int \<Rightarrow> int" where
  "mirror n i = (let m = i mod (2 * n) in if m < n then m else 2 * n - 1 - m)"

definition bounceMeasure :: "int \<Rightarrow> nat" where
  "bounceMeasure i = (if i < 0 then nat (- 2 * i) else nat (2 * i + 1))"

section \<open>Properties of the index look-up table\<close>

lemma reflectBelow_eq: "reflectBelow i = Some (if i < 0 then - i - 1 else i)"
  by (simp add: reflectBelow.simps [of i] reflectBelow.simps [of "- i - 1"])

lemma reflectAbove_eq: "reflectAbove n i = Some (if i \<ge> n then 2 * n - i - 1 else i)"
  by (simp add: reflectAbove.simps [of n i] reflectAbove.simps [of n "2 * n - i - 1"])

lemma mirror_id: "0 \<le> i \<Longrightarrow> i < n \<Longrightarrow> mirror n i = i"
  by (simp add: mirror_def)

lemma mod_neg_succ:
  fixes i n :: int
  assumes "1 \<le> n"
  shows "(- i - 1) mod (2 * n) = 2 * n - 1 - i mod (2 * n)"
proof (rule int_mod_pos_eq [where q = "- (i div (2 * n)) - 1"])
  have "i = 2 * n * (i div (2 * n)) + i mod (2 * n)" by simp
  then show "- i - 1 = 2 * n * (- (i div (2 * n)) - 1) + (2 * n - 1 - i mod (2 * n))"
    by (simp add: algebra_simps)
  have "i mod (2 * n) < 2 * n" using assms by (intro pos_mod_bound) simp
  then show "0 \<le> 2 * n - 1 - i mod (2 * n)" by simp
  have "0 \<le> i mod (2 * n)" using assms by (intro pos_mod_sign) simp
  then show "2 * n - 1 - i mod (2 * n) < 2 * n" by simp
qed

lemma mirror_range:
  assumes "1 \<le> n"
  shows "0 \<le> mirror n i \<and> mirror n i < n"
proof -
  have "0 \<le> i mod (2 * n)" "i mod (2 * n) < 2 * n"
    using assms by simp_all
  then show ?thesis by (auto simp: mirror_def Let_def)
qed

lemma mirror_neg:
  assumes "1 \<le> n"
  shows "mirror n (- i - 1) = mirror n i"
proof -
  have "0 \<le> i mod (2 * n)" "i mod (2 * n) < 2 * n"
    using assms by simp_all
  then show ?thesis
    by (auto simp: mirror_def Let_def mod_neg_succ [OF assms])
qed

lemma mirror_above:
  assumes "1 \<le> n"
  shows "mirror n (2 * n - i - 1) = mirror n i"
proof -
  have "(2 * n - i - 1) mod (2 * n) = (- i - 1 + 2 * n) mod (2 * n)"
    by (simp add: algebra_simps)
  also have "\<dots> = (- i - 1) mod (2 * n)" by (rule mod_add_self2)
  finally have "mirror n (2 * n - i - 1) = mirror n (- i - 1)"
    by (simp add: mirror_def)
  then show ?thesis by (simp add: mirror_neg [OF assms])
qed

text \<open>
  For a positive image size the repeated reflection returns, and returns the mirrored
  index: every round of the outer loop lowers \<open>bounceMeasure\<close>.
\<close>

lemma reflectIndex_mirror:
  assumes n: "1 \<le> n"
  shows "reflectIndex n i = Some (mirror n i)"
proof (induction i rule: measure_induct_rule [where f = bounceMeasure])
  case (less i)
  show ?case
  proof (cases "0 \<le> i \<and> i < n")
    case True
    then show ?thesis by (simp add: reflectIndex.simps [of n i] mirror_id)
  next
    case False
    define j where "j = (if i < 0 then - i - 1 else i)"
    define j' where "j' = (if j \<ge> n then 2 * n - j - 1 else j)"
    have m: "mirror n j' = mirror n i"
      using n by (auto simp: j_def j'_def mirror_neg mirror_above)
    have "bounceMeasure j' < bounceMeasure i"
      using False n by (auto simp: j_def j'_def bounceMeasure_def)
    then have "reflectIndex n j' = Some (mirror n j')" by (rule less.IH)
    moreover have "reflectIndex n i = reflectIndex n j'"
    proof -
      from False have out: "(0 \<le> i \<and> i < n) = False" by simp
      show ?thesis
        by (subst reflectIndex.simps)
           (simp only: out if_False reflectBelow_eq reflectAbove_eq j_def j'_def Option.bind.simps)
    qed
    ultimately show ?thesis using m by simp
  qed
qed

lemma lutLoop_mirror:
  "1 \<le> n \<Longrightarrow>
   lutLoop n s p k lut = Some (lut @ map (\<lambda>j. mirror n (s + j)) [k..p - 1])"
proof (induction n s p k lut rule: lutLoop.induct)
  case (1 imageSize patchStart patchSize k lut)
  show ?case
  proof (cases "k < patchSize")
    case True
    have r: "reflectIndex imageSize (patchStart + k) = Some (mirror imageSize (patchStart + k))"
      using "1.prems" by (rule reflectIndex_mirror)
    have u: "[k..patchSize - 1] = k # [k + 1..patchSize - 1]"
      using True by (simp add: upto_rec1)
    show ?thesis
      using True r "1.IH" [OF True r "1.prems"]
      by (subst lutLoop.simps) (simp add: u)
  next
    case False
    then show ?thesis by (subst lutLoop.simps) simp
  qed
qed

lemma createIndexLut_mirror:
  "1 \<le> n \<Longrightarrow> createIndexLut n s p = Some (map (\<lambda>j. mirror n (s + j)) [0..p - 1])"
  by (simp add: createIndexLut_def lutLoop_mirror)

text \<open>
  C1. For every image size of at least 1, every patch size of at least 1 and every
  patch start, negative ones included, building the table returns (there is no failing
  and no diverging case), the table has exactly \<open>patchSize\<close> entries, and every entry
  lies between \<open>0\<close> and \<open>imageSize - 1\<close>.
\<close>

theorem createIndexLut_total_in_range:
  assumes "1 \<le> imageSize" and "1 \<le> patchSize"
  shows "\<exists>lut. createIndexLut imageSize patchStart patchSize = Some lut
           \<and> int (length lut) = patchSize
           \<and> (\<forall>i \<in> set lut. 0 \<le> i \<and> i \<le> imageSize - 1)"
proof -
  let ?lut = "map (\<lambda>j. mirror imageSize (patchStart + j)) [0..patchSize - 1]"
  have "createIndexLut imageSize patchStart patchSize = Some ?lut"
    using assms(1) by (rule createIndexLut_mirror)
  moreover have "int (length ?lut) = patchSize"
    using assms(2) by simp
  moreover have "\<forall>i \<in> set ?lut. 0 \<le> i \<and> i \<le> imageSize - 1"
    using mirror_range [OF assms(1)] by fastforce
  ultimately show ?thesis by blast
qed

theorem createIndexLut_total_in_range_witness:
  "(1::int) \<le> 3 \<and> (1::int) \<le> 7
   \<and> createIndexLut 3 (- 5) 7 = Some [1, 2, 2, 1, 0, 0, 1]
   \<and> (\<exists>lut. createIndexLut 3 (- 5) 7 = Some lut \<and> int (length lut) = 7
         \<and> (\<forall>i \<in> set lut. 0 \<le> i \<and> i \<le> 3 - 1))"
proof -
  have "createIndexLut 3 (- 5) 7 = Some [1, 2, 2, 1, 0, 0, 1]" by code_simp
  then show ?thesis
    using createIndexLut_total_in_range [of 3 7 "- 5"] by simp
qed

text \<open>
  C2. For every image size of at least 1, every patch size of at least 1 and every
  patch start, entry \<open>k\<close> of the table is the result of repeatedly reflecting
  \<open>patchStart + k\<close> at the borders until it is in range; when the requested range
  lies inside the image (\<open>0 \<le> patchStart\<close> and \<open>patchStart + patchSize \<le> imageSize\<close>)
  the table is the identity sequence from \<open>patchStart\<close> to \<open>patchStart + patchSize - 1\<close>;
  and for image size 10, patch start -2 and patch size 4 the table is \<open>[1, 0, 0, 1]\<close>.
\<close>

theorem createIndexLut_reflects:
  assumes "1 \<le> imageSize" and "1 \<le> patchSize"
  shows "(\<exists>lut. createIndexLut imageSize patchStart patchSize = Some lut
           \<and> (\<forall>k. 0 \<le> k \<and> k < patchSize \<longrightarrow>
                  reflectIndex imageSize (patchStart + k) = Some (lut ! nat k))
           \<and> (0 \<le> patchStart \<and> patchStart + patchSize \<le> imageSize \<longrightarrow>
                  lut = [patchStart..patchStart + patchSize - 1]))
         \<and> createIndexLut 10 (- 2) 4 = Some [1, 0, 0, 1]"
proof -
  let ?lut = "map (\<lambda>j. mirror imageSize (patchStart + j)) [0..patchSize - 1]"
  have c: "createIndexLut imageSize patchStart patchSize = Some ?lut"
    using assms(1) by (rule createIndexLut_mirror)
  have e: "reflectIndex imageSize (patchStart + k) = Some (?lut ! nat k)"
    if "0 \<le> k \<and> k < patchSize" for k
    using that by (simp add: reflectIndex_mirror [OF assms(1)])
  have i: "?lut = [patchStart..patchStart + patchSize - 1]"
    if "0 \<le> patchStart \<and> patchStart + patchSize \<le> imageSize"
  proof (rule nth_equalityI)
    show "length ?lut = length [patchStart..patchStart + patchSize - 1]" by simp
  next
    fix k assume "k < length ?lut"
    then have k: "int k < patchSize" by simp
    then have "mirror imageSize (patchStart + int k) = patchStart + int k"
      using that by (intro mirror_id) simp_all
    moreover have "[0..patchSize - 1] ! k = int k"
      using k by simp
    moreover have "[patchStart..patchStart + patchSize - 1] ! k = patchStart + int k"
      using k by simp
    ultimately show "?lut ! k = [patchStart..patchStart + patchSize - 1] ! k"
      using k by simp
  qed
  have x: "createIndexLut 10 (- 2) 4 = Some [1, 0, 0, 1]" by code_simp
  from c e i x show ?thesis by blast
qed

theorem createIndexLut_reflects_witness:
  "(1::int) \<le> 10 \<and> (1::int) \<le> 4 \<and> (0::int) \<le> 3 \<and> (3::int) + 4 \<le> 10
   \<and> createIndexLut 10 3 4 = Some [3, 4, 5, 6]
   \<and> reflectIndex 10 (3 + 1) = Some 4"
proof -
  from createIndexLut_reflects [of 10 4 3] obtain lut where
    l: "createIndexLut 10 3 4 = Some lut" and
    r: "\<forall>k. 0 \<le> k \<and> k < 4 \<longrightarrow> reflectIndex 10 (3 + k) = Some (lut ! nat k)" and
    i: "lut = [3..3 + 4 - 1]"
    by auto
  have u: "[3..3 + 4 - 1] = [3, 4, 5, 6::int]" by code_simp
  from r have "0 \<le> (1::int) \<and> (1::int) < 4 \<longrightarrow> reflectIndex 10 (3 + 1) = Some (lut ! nat 1)"
    by (rule spec)
  then have "reflectIndex 10 (3 + 1) = Some (lut ! nat 1)" by simp
  with l i u show ?thesis by simp
qed


section \<open>Properties of patch sampling\<close>

subsection \<open>The inner loop\<close>

lemma writeAt_fields [simp]:
  "colIndices (writeAt row x v s) = colIndices s"
  "rowIndices (writeAt row x v s) = rowIndices s"
  "brk (writeAt row x v s) = brk s"
  by (simp_all add: writeAt_def)

lemma heap_writeAt:
  "heap (writeAt row x v s) a y c =
     (if a = fst row \<and> y = snd row \<and> c = x then v else heap s a y c)"
  by (simp add: writeAt_def)

lemma readAt_eq:
  "readAt img row x s =
     (if 0 \<le> x \<and> x < int (cols img) then Inr (heap s (fst row) (snd row) (nat x))
      else Inl IndexOutOfRange)"
  by (simp add: readAt_def)

lemma colLoop_vectors:
  "brk (snd (colLoop img pr ir x s)) = brk s
   \<and> rowIndices (snd (colLoop img pr ir x s)) = rowIndices s
   \<and> colIndices (snd (colLoop img pr ir x s)) = colIndices s"
proof (induction img pr ir x s rule: colLoop.induct)
  case (1 img patchRow imageRow patchX s)
  then show ?case
    by (subst (1 2 3) colLoop.simps) (auto split: sum.splits)
qed

lemma colLoop_frame:
  "a \<noteq> fst pr \<or> y \<noteq> snd pr \<Longrightarrow> heap (snd (colLoop img pr ir x s)) a y c = heap s a y c"
proof (induction img pr ir x s rule: colLoop.induct)
  case (1 img patchRow imageRow patchX s)
  then show ?case
    by (subst colLoop.simps) (auto simp: heap_writeAt split: sum.splits)
qed

lemma colLoop_outcome:
  "fst (colLoop img pr ir x s) =
     (if \<forall>k. x \<le> k \<and> k < length (colIndices s) \<longrightarrow>
              0 \<le> colIndices s ! k \<and> colIndices s ! k < int (cols img)
      then Inr () else Inl IndexOutOfRange)"
proof (induction img pr ir x s rule: colLoop.induct)
  case (1 img patchRow imageRow patchX s)
  show ?case
  proof (cases "patchX < length (colIndices s)")
    case False
    then show ?thesis by (subst colLoop.simps) simp
  next
    case True
    show ?thesis
    proof (cases "0 \<le> colIndices s ! patchX \<and> colIndices s ! patchX < int (cols img)")
      case False
      then have "readAt img imageRow (colIndices s ! patchX) s = Inl IndexOutOfRange"
        by (simp add: readAt_eq)
      moreover have "\<not> (\<forall>k. patchX \<le> k \<and> k < length (colIndices s) \<longrightarrow>
              0 \<le> colIndices s ! k \<and> colIndices s ! k < int (cols img))"
        using True False by blast
      ultimately show ?thesis using True by (subst colLoop.simps) simp
    next
      case valid: True
      define v where "v = heap s (fst imageRow) (snd imageRow) (nat (colIndices s ! patchX))"
      have r: "readAt img imageRow (colIndices s ! patchX) s = Inr v"
        using valid by (simp add: readAt_eq v_def)
      have split: "(\<forall>k. patchX \<le> k \<and> k < length (colIndices s) \<longrightarrow>
              0 \<le> colIndices s ! k \<and> colIndices s ! k < int (cols img))
          = (\<forall>k. Suc patchX \<le> k \<and> k < length (colIndices s) \<longrightarrow>
              0 \<le> colIndices s ! k \<and> colIndices s ! k < int (cols img))"
        using valid by (metis Suc_leI le_neq_implies_less Suc_leD)
      have "fst (colLoop img patchRow imageRow patchX s)
          = fst (colLoop img patchRow imageRow (Suc patchX) (writeAt patchRow patchX v s))"
        using True r by (subst colLoop.simps) simp
      also note "1.IH" [OF True r]
      finally show ?thesis by (simp only: split writeAt_fields)
    qed
  qed
qed

lemma colLoop_content:
  assumes "\<forall>k. x \<le> k \<and> k < length (colIndices s) \<longrightarrow>
              0 \<le> colIndices s ! k \<and> colIndices s ! k < int (cols img)"
    and "pr \<noteq> ir"
  shows "heap (snd (colLoop img pr ir x s)) (fst pr) (snd pr) c =
     (if x \<le> c \<and> c < length (colIndices s)
      then heap s (fst ir) (snd ir) (nat (colIndices s ! c))
      else heap s (fst pr) (snd pr) c)"
  using assms
proof (induction img pr ir x s rule: colLoop.induct)
  case (1 img patchRow imageRow patchX s)
  show ?case
  proof (cases "patchX < length (colIndices s)")
    case False
    then show ?thesis by (subst colLoop.simps) auto
  next
    case True
    define v where "v = heap s (fst imageRow) (snd imageRow) (nat (colIndices s ! patchX))"
    have valid: "0 \<le> colIndices s ! patchX \<and> colIndices s ! patchX < int (cols img)"
      using "1.prems"(1) True by simp
    have r: "readAt img imageRow (colIndices s ! patchX) s = Inr v"
      using valid by (simp add: readAt_eq v_def)
    let ?s1 = "writeAt patchRow patchX v s"
    have p: "\<forall>k. Suc patchX \<le> k \<and> k < length (colIndices ?s1) \<longrightarrow>
              0 \<le> colIndices ?s1 ! k \<and> colIndices ?s1 ! k < int (cols img)"
      using "1.prems"(1) by simp
    have other: "heap ?s1 (fst imageRow) (snd imageRow) = heap s (fst imageRow) (snd imageRow)"
      using "1.prems"(2) by (auto simp: heap_writeAt prod_eq_iff)
    have "colLoop img patchRow imageRow patchX s
          = colLoop img patchRow imageRow (Suc patchX) ?s1"
      using True r by (subst colLoop.simps) simp
    then show ?thesis
      using True "1.IH" [OF True r p "1.prems"(2)] other
      by (auto simp: heap_writeAt v_def)
  qed
qed


subsection \<open>The outer loop\<close>

lemma ptr_eq:
  "ptr m y = (if 0 \<le> y \<and> y < int (rows m) then Inr (dataPtr m, nat y) else Inl IndexOutOfRange)"
  by (simp add: ptr_def)

lemma rowLoop_done: "\<not> patchY < length (rowIndices s) \<Longrightarrow> rowLoop img patch patchY s = (Inr (), s)"
  by (subst rowLoop.simps) simp

lemma rowLoop_bad_row:
  assumes "patchY < length (rowIndices s)" and "patchY < rows patch"
    and "\<not> (0 \<le> rowIndices s ! patchY \<and> rowIndices s ! patchY < int (rows img))"
  shows "rowLoop img patch patchY s = (Inl IndexOutOfRange, s)"
proof -
  have "ptr img (rowIndices s ! patchY) = Inl IndexOutOfRange"
    using assms(3) by (simp only: ptr_eq if_False)
  moreover have "ptr patch (int patchY) = Inr (dataPtr patch, patchY)"
    using assms(2) by (simp add: ptr_eq)
  ultimately show ?thesis
    using assms(1) by (subst rowLoop.simps) simp
qed

lemma rowLoop_row:
  assumes "patchY < length (rowIndices s)" and "patchY < rows patch"
    and "0 \<le> rowIndices s ! patchY \<and> rowIndices s ! patchY < int (rows img)"
  shows "rowLoop img patch patchY s =
    (case colLoop img (dataPtr patch, patchY) (dataPtr img, nat (rowIndices s ! patchY)) 0 s of
       (Inl e, s') \<Rightarrow> (Inl e, s')
     | (Inr u, s') \<Rightarrow> rowLoop img patch (Suc patchY) s')"
  using assms by (subst rowLoop.simps) (simp add: ptr_eq)

lemma rowLoop_vectors:
  "brk (snd (rowLoop img patch y s)) = brk s
   \<and> rowIndices (snd (rowLoop img patch y s)) = rowIndices s
   \<and> colIndices (snd (rowLoop img patch y s)) = colIndices s"
proof (induction img patch y s rule: rowLoop.induct)
  case (1 img patch patchY s)
  show ?case
  proof (cases "patchY < length (rowIndices s)")
    case False
    then show ?thesis by (simp add: rowLoop_done)
  next
    case True
    show ?thesis
    proof (cases "ptr patch (int patchY)")
      case (Inl e)
      then show ?thesis using True by (subst (1 2 3) rowLoop.simps) simp
    next
      case pr: (Inr patchRow)
      show ?thesis
      proof (cases "ptr img (rowIndices s ! patchY)")
        case (Inl e)
        then show ?thesis using True pr by (subst (1 2 3) rowLoop.simps) simp
      next
        case ir: (Inr imageRow)
        obtain r s1 where c: "colLoop img patchRow imageRow 0 s = (r, s1)"
          by (cases "colLoop img patchRow imageRow 0 s")
        have v: "brk s1 = brk s \<and> rowIndices s1 = rowIndices s \<and> colIndices s1 = colIndices s"
          using colLoop_vectors [of img patchRow imageRow 0 s] c by simp
        show ?thesis
        proof (cases r)
          case (Inl e)
          then show ?thesis using True pr ir c v by (subst (1 2 3) rowLoop.simps) simp
        next
          case (Inr u)
          have "rowLoop img patch patchY s = rowLoop img patch (Suc patchY) s1"
            using True pr ir c Inr by (subst rowLoop.simps) simp
          then show ?thesis
            using "1.IH" [OF True pr ir c [symmetric] Inr] v by simp
        qed
      qed
    qed
  qed
qed

lemma rowLoop_frame:
  "a \<noteq> dataPtr patch \<or> y < y0 \<Longrightarrow> heap (snd (rowLoop img patch y0 s)) a y c = heap s a y c"
proof (induction img patch y0 s rule: rowLoop.induct)
  case (1 img patch patchY s)
  show ?case
  proof (cases "patchY < length (rowIndices s)")
    case False
    then show ?thesis by (simp add: rowLoop_done)
  next
    case True
    show ?thesis
    proof (cases "ptr patch (int patchY)")
      case (Inl e)
      then show ?thesis using True by (subst rowLoop.simps) simp
    next
      case pr: (Inr patchRow)
      then have prv: "patchRow = (dataPtr patch, patchY)"
        by (auto simp: ptr_eq split: if_splits)
      show ?thesis
      proof (cases "ptr img (rowIndices s ! patchY)")
        case (Inl e)
        then show ?thesis using True pr by (subst rowLoop.simps) simp
      next
        case ir: (Inr imageRow)
        obtain r s1 where c: "colLoop img patchRow imageRow 0 s = (r, s1)"
          by (cases "colLoop img patchRow imageRow 0 s")
        have f: "heap s1 a y c = heap s a y c"
          using colLoop_frame [of a patchRow y img imageRow 0 s c] c "1.prems" prv by auto
        show ?thesis
        proof (cases r)
          case (Inl e)
          then show ?thesis using True pr ir c f by (subst rowLoop.simps) simp
        next
          case (Inr u)
          have "rowLoop img patch patchY s = rowLoop img patch (Suc patchY) s1"
            using True pr ir c Inr by (subst rowLoop.simps) simp
          moreover have "a \<noteq> dataPtr patch \<or> y < Suc patchY"
            using "1.prems" by auto
          ultimately show ?thesis
            using "1.IH" [OF True pr ir c [symmetric] Inr] f by simp
        qed
      qed
    qed
  qed
qed


lemma rowLoop_outcome:
  assumes "length (rowIndices s) \<le> rows patch"
  shows "fst (rowLoop img patch y s) =
     (if (\<forall>k. y \<le> k \<and> k < length (rowIndices s) \<longrightarrow>
              0 \<le> rowIndices s ! k \<and> rowIndices s ! k < int (rows img))
        \<and> (y < length (rowIndices s) \<longrightarrow>
              (\<forall>k. k < length (colIndices s) \<longrightarrow>
                 0 \<le> colIndices s ! k \<and> colIndices s ! k < int (cols img)))
      then Inr () else Inl IndexOutOfRange)"
  using assms
proof (induction "length (rowIndices s) - y" arbitrary: y s)
  case 0
  then have "\<not> y < length (rowIndices s)" by simp
  then show ?case by (auto simp: rowLoop_done)
next
  case (Suc n)
  then have y: "y < length (rowIndices s)" and yp: "y < rows patch" by simp_all
  show ?case
  proof (cases "0 \<le> rowIndices s ! y \<and> rowIndices s ! y < int (rows img)")
    case False
    then have "rowLoop img patch y s = (Inl IndexOutOfRange, s)"
      using y yp by (intro rowLoop_bad_row)
    moreover have "\<not> (\<forall>k. y \<le> k \<and> k < length (rowIndices s) \<longrightarrow>
              0 \<le> rowIndices s ! k \<and> rowIndices s ! k < int (rows img))"
      using y False by blast
    ultimately show ?thesis by simp
  next
    case valid: True
    obtain res s1 where
      c: "colLoop img (dataPtr patch, y) (dataPtr img, nat (rowIndices s ! y)) 0 s = (res, s1)"
      by (cases "colLoop img (dataPtr patch, y) (dataPtr img, nat (rowIndices s ! y)) 0 s")
    have step: "rowLoop img patch y s =
        (case res of Inl e \<Rightarrow> (Inl e, s1) | Inr u \<Rightarrow> rowLoop img patch (Suc y) s1)"
      using rowLoop_row [OF y yp valid] by (simp add: c)
    have out: "res =
        (if \<forall>k. k < length (colIndices s) \<longrightarrow>
              0 \<le> colIndices s ! k \<and> colIndices s ! k < int (cols img)
         then Inr () else Inl IndexOutOfRange)"
      using colLoop_outcome [of img "(dataPtr patch, y)" "(dataPtr img, nat (rowIndices s ! y))" 0 s]
      by (simp add: c)
    have vec: "rowIndices s1 = rowIndices s" "colIndices s1 = colIndices s"
      using colLoop_vectors [of img "(dataPtr patch, y)" "(dataPtr img, nat (rowIndices s ! y))" 0 s]
      by (simp_all add: c)
    show ?thesis
    proof (cases "\<forall>k. k < length (colIndices s) \<longrightarrow>
              0 \<le> colIndices s ! k \<and> colIndices s ! k < int (cols img)")
      case False
      with out have "res = Inl IndexOutOfRange" by simp
      then have "fst (rowLoop img patch y s) = Inl IndexOutOfRange"
        using step by simp
      then show ?thesis using False y by simp
    next
      case cols: True
      with out have "res = Inr ()" by simp
      then have r: "rowLoop img patch y s = rowLoop img patch (Suc y) s1"
        using step by simp
      have "n = length (rowIndices s1) - Suc y"
        using Suc.hyps(2) vec by simp
      moreover have "length (rowIndices s1) \<le> rows patch"
        using Suc.prems vec by simp
      ultimately have ih: "fst (rowLoop img patch (Suc y) s1) =
        (if (\<forall>k. Suc y \<le> k \<and> k < length (rowIndices s) \<longrightarrow>
              0 \<le> rowIndices s ! k \<and> rowIndices s ! k < int (rows img))
          \<and> (Suc y < length (rowIndices s) \<longrightarrow>
              (\<forall>k. k < length (colIndices s) \<longrightarrow>
                 0 \<le> colIndices s ! k \<and> colIndices s ! k < int (cols img)))
         then Inr () else Inl IndexOutOfRange)"
        using Suc.hyps(1) [of s1 "Suc y"] vec by simp
      have split: "(\<forall>k. y \<le> k \<and> k < length (rowIndices s) \<longrightarrow>
              0 \<le> rowIndices s ! k \<and> rowIndices s ! k < int (rows img))
          = (\<forall>k. Suc y \<le> k \<and> k < length (rowIndices s) \<longrightarrow>
              0 \<le> rowIndices s ! k \<and> rowIndices s ! k < int (rows img))"
        using valid by (metis Suc_leI le_neq_implies_less Suc_leD)
      show ?thesis
        using cols y by (simp only: r ih split) simp
    qed
  qed
qed

lemma rowLoop_content:
  assumes "length (rowIndices s) \<le> rows patch"
    and "\<forall>k. y \<le> k \<and> k < length (rowIndices s) \<longrightarrow>
              0 \<le> rowIndices s ! k \<and> rowIndices s ! k < int (rows img)"
    and "\<forall>k. k < length (colIndices s) \<longrightarrow>
              0 \<le> colIndices s ! k \<and> colIndices s ! k < int (cols img)"
    and "dataPtr patch \<noteq> dataPtr img"
  shows "heap (snd (rowLoop img patch y s)) (dataPtr patch) r c =
     (if y \<le> r \<and> r < length (rowIndices s) \<and> c < length (colIndices s)
      then heap s (dataPtr img) (nat (rowIndices s ! r)) (nat (colIndices s ! c))
      else heap s (dataPtr patch) r c)"
  using assms
proof (induction "length (rowIndices s) - y" arbitrary: y s)
  case 0
  then have "\<not> y < length (rowIndices s)" by simp
  then show ?case by (auto simp: rowLoop_done)
next
  case (Suc n)
  then have y: "y < length (rowIndices s)" and yp: "y < rows patch" by simp_all
  have valid: "0 \<le> rowIndices s ! y \<and> rowIndices s ! y < int (rows img)"
    using Suc.prems(2) y by simp
  let ?pr = "(dataPtr patch, y)" and ?ir = "(dataPtr img, nat (rowIndices s ! y))"
  obtain res s1 where c: "colLoop img ?pr ?ir 0 s = (res, s1)"
    by (cases "colLoop img ?pr ?ir 0 s")
  have step: "rowLoop img patch y s =
      (case res of Inl e \<Rightarrow> (Inl e, s1) | Inr u \<Rightarrow> rowLoop img patch (Suc y) s1)"
    using rowLoop_row [OF y yp valid] by (simp add: c)
  have "res = Inr ()"
    using colLoop_outcome [of img ?pr ?ir 0 s] Suc.prems(3) by (simp add: c)
  then have r: "rowLoop img patch y s = rowLoop img patch (Suc y) s1"
    using step by simp
  have vec: "rowIndices s1 = rowIndices s" "colIndices s1 = colIndices s"
    using colLoop_vectors [of img ?pr ?ir 0 s] by (simp_all add: c)
  have row: "heap s1 (dataPtr patch) y c' =
      (if c' < length (colIndices s)
       then heap s (dataPtr img) (nat (rowIndices s ! y)) (nat (colIndices s ! c'))
       else heap s (dataPtr patch) y c')" for c'
    using colLoop_content [of 0 s img ?pr ?ir c'] Suc.prems(3,4) by (simp add: c)
  have rest: "heap s1 a y' c' = heap s a y' c'" if "a \<noteq> dataPtr patch \<or> y' \<noteq> y" for a y' c'
    using colLoop_frame [of a ?pr y' img ?ir 0 s c'] that by (simp add: c)
  have "n = length (rowIndices s1) - Suc y"
    using Suc.hyps(2) vec by simp
  moreover have "length (rowIndices s1) \<le> rows patch"
    using Suc.prems(1) vec by simp
  moreover have "\<forall>k. Suc y \<le> k \<and> k < length (rowIndices s1) \<longrightarrow>
              0 \<le> rowIndices s1 ! k \<and> rowIndices s1 ! k < int (rows img)"
    using Suc.prems(2) vec by simp
  moreover have "\<forall>k. k < length (colIndices s1) \<longrightarrow>
              0 \<le> colIndices s1 ! k \<and> colIndices s1 ! k < int (cols img)"
    using Suc.prems(3) vec by simp
  ultimately have ih: "heap (snd (rowLoop img patch (Suc y) s1)) (dataPtr patch) r c =
     (if Suc y \<le> r \<and> r < length (rowIndices s) \<and> c < length (colIndices s)
      then heap s1 (dataPtr img) (nat (rowIndices s ! r)) (nat (colIndices s ! c))
      else heap s1 (dataPtr patch) r c)"
    using Suc.hyps(1) [of s1 "Suc y"] Suc.prems(4) vec by simp
  have img: "heap s1 (dataPtr img) y' c' = heap s (dataPtr img) y' c'" for y' c'
    using Suc.prems(4) by (intro rest) simp
  show ?case
  proof (cases "r = y")
    case True
    then show ?thesis using y ih row [of c] by (simp add: r)
  next
    case False
    then have "heap s1 (dataPtr patch) r c = heap s (dataPtr patch) r c"
      by (intro rest) simp
    then show ?thesis using False by (auto simp: r ih img)
  qed
qed


subsection \<open>The whole function\<close>

lemma patchResult_eq:
  "patchResult r =
     (case fst r of
        Inl e \<Rightarrow> Inl e
      | Inr patch \<Rightarrow> Inr (rows patch, cols patch, mtype patch, matContents (snd r) patch))"
  by (simp add: patchResult_def split: prod.splits sum.splits)

lemma validIndices_set: "validIndices n xs = (\<forall>x \<in> set xs. 0 \<le> x \<and> x < int n)"
  by (simp add: validIndices_def all_set_conv_all_nth)

lemma createPatchData_eq:
  "createPatchData img s =
     (case rowLoop img \<lparr>rows = length (rowIndices s), cols = length (colIndices s),
                        mtype = mtype img, dataPtr = brk s\<rparr> 0 (s\<lparr>brk := Suc (brk s)\<rparr>) of
        (Inl e, s2) \<Rightarrow> (Inl e, s2)
      | (Inr u, s2) \<Rightarrow>
          (Inr \<lparr>rows = length (rowIndices s), cols = length (colIndices s),
                 mtype = mtype img, dataPtr = brk s\<rparr>, s2))"
  by (simp add: createPatchData_def newMat_def)

lemma createPatchData_snd:
  "snd (createPatchData img s) =
     snd (rowLoop img \<lparr>rows = length (rowIndices s), cols = length (colIndices s),
                        mtype = mtype img, dataPtr = brk s\<rparr> 0 (s\<lparr>brk := Suc (brk s)\<rparr>))"
  by (simp add: createPatchData_eq split: prod.splits sum.splits)

lemma createPatchData_fst:
  "fst (createPatchData img s) =
     (case fst (rowLoop img \<lparr>rows = length (rowIndices s), cols = length (colIndices s),
                        mtype = mtype img, dataPtr = brk s\<rparr> 0 (s\<lparr>brk := Suc (brk s)\<rparr>)) of
        Inl e \<Rightarrow> Inl e
      | Inr u \<Rightarrow> Inr \<lparr>rows = length (rowIndices s), cols = length (colIndices s),
                 mtype = mtype img, dataPtr = brk s\<rparr>)"
  by (simp add: createPatchData_eq split: prod.splits sum.splits)

lemma createPatchData_outcome:
  "fst (createPatchData img s) =
     (if validIndices (rows img) (rowIndices s)
         \<and> (rowIndices s \<noteq> [] \<longrightarrow> validIndices (cols img) (colIndices s))
      then Inr \<lparr>rows = length (rowIndices s), cols = length (colIndices s),
                 mtype = mtype img, dataPtr = brk s\<rparr>
      else Inl IndexOutOfRange)"
  by (simp add: createPatchData_fst rowLoop_outcome validIndices_def)

lemma createPatchData_vectors:
  "brk (snd (createPatchData img s)) = Suc (brk s)
   \<and> rowIndices (snd (createPatchData img s)) = rowIndices s
   \<and> colIndices (snd (createPatchData img s)) = colIndices s"
  by (simp add: createPatchData_snd rowLoop_vectors)

lemma createPatchData_frame:
  "a \<noteq> brk s \<Longrightarrow> heap (snd (createPatchData img s)) a = heap s a"
  by (intro ext) (simp add: createPatchData_snd rowLoop_frame)

lemma createPatchData_content:
  assumes "validIndices (rows img) (rowIndices s)"
    and "validIndices (cols img) (colIndices s)"
    and "dataPtr img \<noteq> brk s"
    and "r < length (rowIndices s)" and "c < length (colIndices s)"
  shows "heap (snd (createPatchData img s)) (brk s) r c =
           heap s (dataPtr img) (nat (rowIndices s ! r)) (nat (colIndices s ! c))"
proof -
  let ?patch = "\<lparr>rows = length (rowIndices s), cols = length (colIndices s),
                  mtype = mtype img, dataPtr = brk s\<rparr>"
  let ?s1 = "s\<lparr>brk := Suc (brk s)\<rparr>"
  have "heap (snd (rowLoop img ?patch 0 ?s1)) (dataPtr ?patch) r c =
     (if 0 \<le> r \<and> r < length (rowIndices ?s1) \<and> c < length (colIndices ?s1)
      then heap ?s1 (dataPtr img) (nat (rowIndices ?s1 ! r)) (nat (colIndices ?s1 ! c))
      else heap ?s1 (dataPtr ?patch) r c)"
    using assms(1,2,3) by (intro rowLoop_content) (simp_all add: validIndices_def)
  then show ?thesis
    using assms(4,5) by (simp add: createPatchData_snd)
qed

lemma createPatchData_agree:
  assumes "rows img1 = rows img2" and "cols img1 = cols img2" and "mtype img1 = mtype img2"
    and "rowIndices s1 = rowIndices s2" and "colIndices s1 = colIndices s2"
    and "dataPtr img1 \<noteq> brk s1" and "dataPtr img2 \<noteq> brk s2"
    and "validIndices (rows img1) (rowIndices s1)"
    and "validIndices (cols img1) (colIndices s1)"
    and "\<forall>r c. r < length (rowIndices s1) \<and> c < length (colIndices s1) \<longrightarrow>
            heap s1 (dataPtr img1) (nat (rowIndices s1 ! r)) (nat (colIndices s1 ! c))
              = heap s2 (dataPtr img2) (nat (rowIndices s1 ! r)) (nat (colIndices s1 ! c))"
  shows "fst (createPatchData img1 s1)
           = Inr \<lparr>rows = length (rowIndices s1), cols = length (colIndices s1),
                   mtype = mtype img1, dataPtr = brk s1\<rparr>"
    and "fst (createPatchData img2 s2)
           = Inr \<lparr>rows = length (rowIndices s1), cols = length (colIndices s1),
                   mtype = mtype img1, dataPtr = brk s2\<rparr>"
    and "matContents (snd (createPatchData img1 s1))
           \<lparr>rows = length (rowIndices s1), cols = length (colIndices s1),
              mtype = mtype img1, dataPtr = brk s1\<rparr>
         = matContents (snd (createPatchData img2 s2))
           \<lparr>rows = length (rowIndices s1), cols = length (colIndices s1),
              mtype = mtype img1, dataPtr = brk s2\<rparr>"
proof -
  let ?t1 = "snd (createPatchData img1 s1)" and ?t2 = "snd (createPatchData img2 s2)"
  show "fst (createPatchData img1 s1)
           = Inr \<lparr>rows = length (rowIndices s1), cols = length (colIndices s1),
                   mtype = mtype img1, dataPtr = brk s1\<rparr>"
    using assms(8,9) by (simp add: createPatchData_outcome)
  have v2: "validIndices (rows img2) (rowIndices s2)" "validIndices (cols img2) (colIndices s2)"
    using assms(1,2,4,5,8,9) by simp_all
  then show "fst (createPatchData img2 s2)
           = Inr \<lparr>rows = length (rowIndices s1), cols = length (colIndices s1),
                   mtype = mtype img1, dataPtr = brk s2\<rparr>"
    using assms(3,4,5) by (simp add: createPatchData_outcome)
  have "heap ?t1 (brk s1) y x = heap ?t2 (brk s2) y x"
    if "y < length (rowIndices s1)" "x < length (colIndices s1)" for y x
  proof -
    have "heap ?t1 (brk s1) y x
        = heap s1 (dataPtr img1) (nat (rowIndices s1 ! y)) (nat (colIndices s1 ! x))"
      using assms(8,9) that assms(6) by (intro createPatchData_content) simp_all
    also have "\<dots> = heap s2 (dataPtr img2) (nat (rowIndices s1 ! y)) (nat (colIndices s1 ! x))"
      using assms(10) that by simp
    also have "\<dots> = heap ?t2 (brk s2) y x"
      using v2 that assms(4,5,7)
      by (subst createPatchData_content) simp_all
    finally show ?thesis .
  qed
  then show "matContents ?t1 \<lparr>rows = length (rowIndices s1), cols = length (colIndices s1),
              mtype = mtype img1, dataPtr = brk s1\<rparr>
         = matContents ?t2 \<lparr>rows = length (rowIndices s1), cols = length (colIndices s1),
              mtype = mtype img1, dataPtr = brk s2\<rparr>"
    by (simp add: matContents_def)
qed

lemma createPatchData_success:
  assumes "createPatchData img s = (Inr patch, s')"
  shows "patch = \<lparr>rows = length (rowIndices s), cols = length (colIndices s),
                   mtype = mtype img, dataPtr = brk s\<rparr>
         \<and> validIndices (rows img) (rowIndices s)
         \<and> (rowIndices s \<noteq> [] \<longrightarrow> validIndices (cols img) (colIndices s))"
proof -
  let ?ok = "validIndices (rows img) (rowIndices s)
         \<and> (rowIndices s \<noteq> [] \<longrightarrow> validIndices (cols img) (colIndices s))"
  have f: "fst (createPatchData img s) =
      (if ?ok then Inr \<lparr>rows = length (rowIndices s), cols = length (colIndices s),
                   mtype = mtype img, dataPtr = brk s\<rparr> else Inl IndexOutOfRange)"
    by (simp add: createPatchData_outcome)
  from assms have fp: "fst (createPatchData img s) = Inr patch" by simp
  have "?ok"
  proof (rule ccontr)
    assume "\<not> ?ok"
    with f have "fst (createPatchData img s) = Inl IndexOutOfRange" by simp
    with fp show False by simp
  qed
  with f fp show ?thesis by simp
qed

lemma createPatchData_duplicates:
  assumes "dataPtr img \<noteq> brk s"
    and "createPatchData img s = (Inr patch, s')"
    and "r1 < length (rowIndices s)" and "r2 < length (rowIndices s)"
    and "c1 < length (colIndices s)" and "c2 < length (colIndices s)"
    and "rowIndices s ! r1 = rowIndices s ! r2"
    and "colIndices s ! c1 = colIndices s ! c2"
  shows "heap s' (dataPtr patch) r1 c1 = heap s' (dataPtr patch) r2 c2"
proof -
  from assms(3) have ne: "rowIndices s \<noteq> []" by auto
  from assms(2) have s': "s' = snd (createPatchData img s)" by simp
  from createPatchData_success [OF assms(2)] ne
  have p: "dataPtr patch = brk s" and ok: "validIndices (rows img) (rowIndices s)"
      "validIndices (cols img) (colIndices s)"
    by simp_all
  have "heap s' (dataPtr patch) r1 c1
      = heap s (dataPtr img) (nat (rowIndices s ! r1)) (nat (colIndices s ! c1))"
    unfolding s' p using ok assms by (intro createPatchData_content) simp_all
  moreover have "heap s' (dataPtr patch) r2 c2
      = heap s (dataPtr img) (nat (rowIndices s ! r2)) (nat (colIndices s ! c2))"
    unfolding s' p using ok assms by (intro createPatchData_content) simp_all
  ultimately show ?thesis using assms(7,8) by simp
qed

text \<open>
  C3. For every source image whose buffer is allocated and every pair of index
  vectors whose entries are valid row and column indices of the image,
  \<^verbatim>\<open>createPatchData\<close> returns a matrix with a buffer of its own (at an address that
  was not allocated before the call), of dimensions \<open>rowIndices.size()\<close> by
  \<open>colIndices.size()\<close> and of the element type of the image, whose element at
  \<open>(r, c)\<close> is the element of the image at \<open>(rowIndices[r], colIndices[c])\<close>, for all
  \<open>r\<close> and \<open>c\<close>.
\<close>

theorem createPatchData_copies:
  assumes "dataPtr img < brk s"
    and "\<forall>y \<in> set (rowIndices s). 0 \<le> y \<and> y < int (rows img)"
    and "\<forall>x \<in> set (colIndices s). 0 \<le> x \<and> x < int (cols img)"
  shows "\<exists>patch s'. createPatchData img s = (Inr patch, s')
           \<and> rows patch = length (rowIndices s) \<and> cols patch = length (colIndices s)
           \<and> mtype patch = mtype img
           \<and> brk s \<le> dataPtr patch \<and> dataPtr patch < brk s'
           \<and> (\<forall>r c. r < length (rowIndices s) \<and> c < length (colIndices s) \<longrightarrow>
                 heap s' (dataPtr patch) r c
                   = heap s (dataPtr img) (nat (rowIndices s ! r)) (nat (colIndices s ! c)))"
proof -
  let ?patch = "\<lparr>rows = length (rowIndices s), cols = length (colIndices s),
                  mtype = mtype img, dataPtr = brk s\<rparr>"
  let ?s' = "snd (createPatchData img s)"
  have v: "validIndices (rows img) (rowIndices s)" "validIndices (cols img) (colIndices s)"
    using assms(2,3) by (simp_all add: validIndices_set)
  then have "fst (createPatchData img s) = Inr ?patch"
    by (simp add: createPatchData_outcome)
  then have "createPatchData img s = (Inr ?patch, ?s')"
    by (metis prod.collapse)
  moreover have "brk ?s' = Suc (brk s)"
    by (simp add: createPatchData_vectors)
  moreover have "\<forall>r c. r < length (rowIndices s) \<and> c < length (colIndices s) \<longrightarrow>
                 heap ?s' (dataPtr ?patch) r c
                   = heap s (dataPtr img) (nat (rowIndices s ! r)) (nat (colIndices s ! c))"
    using v assms(1) by (simp add: createPatchData_content)
  ultimately show ?thesis
    by (intro exI [of _ ?patch] exI [of _ ?s']) simp
qed

theorem createPatchData_copies_witness:
  "dataPtr exampleImage < brk exampleStore
   \<and> list_all (\<lambda>y. 0 \<le> y \<and> y < int (rows exampleImage)) (rowIndices exampleStore)
   \<and> list_all (\<lambda>x. 0 \<le> x \<and> x < int (cols exampleImage)) (colIndices exampleStore)
   \<and> (\<exists>patch s'. createPatchData exampleImage exampleStore = (Inr patch, s')
         \<and> rows patch = 4 \<and> cols patch = 3 \<and> mtype patch = 0
         \<and> heap s' (dataPtr patch) 0 0 = 12 \<and> heap s' (dataPtr patch) 1 2 = 1
         \<and> matContents s' patch = [[12, 12, 11], [2, 2, 1], [2, 2, 1], [12, 12, 11]])"
proof -
  have h: "dataPtr exampleImage < brk exampleStore"
    "\<forall>y \<in> set (rowIndices exampleStore). 0 \<le> y \<and> y < int (rows exampleImage)"
    "\<forall>x \<in> set (colIndices exampleStore). 0 \<le> x \<and> x < int (cols exampleImage)"
    by (simp_all add: exampleImage_def exampleStore_def)
  from createPatchData_copies [OF h] obtain patch s' where
    c: "createPatchData exampleImage exampleStore = (Inr patch, s')"
      "rows patch = length (rowIndices exampleStore)"
      "cols patch = length (colIndices exampleStore)"
      "mtype patch = mtype exampleImage"
    and e: "\<forall>r c. r < length (rowIndices exampleStore) \<and> c < length (colIndices exampleStore) \<longrightarrow>
                 heap s' (dataPtr patch) r c
                   = heap exampleStore (dataPtr exampleImage)
                       (nat (rowIndices exampleStore ! r)) (nat (colIndices exampleStore ! c))"
    by blast
  have "heap s' (dataPtr patch) 0 0 = 12"
    using e [rule_format, of 0 0] by (simp add: exampleImage_def exampleStore_def)
  moreover have "heap s' (dataPtr patch) 1 2 = 1"
    using e [rule_format, of 1 2] by (simp add: exampleImage_def exampleStore_def)
  moreover have "matContents s' patch = [[12, 12, 11], [2, 2, 1], [2, 2, 1], [12, 12, 11]]"
  proof -
    have "patchResult (createPatchData exampleImage exampleStore)
        = Inr (4, 3, 0, [[12, 12, 11], [2, 2, 1], [2, 2, 1], [12, 12, 11]])"
      by code_simp
    then show ?thesis by (simp add: c(1) patchResult_def)
  qed
  ultimately show ?thesis
    using h c by (simp add: exampleImage_def exampleStore_def)
qed

text \<open>
  C9. \<^verbatim>\<open>createPatchData\<close> leaves its inputs as they were, in every call, failing
  ones included: the two index vectors, taken by non-const reference, hold the same
  entries after the call as before, and the buffer of the source image is not
  written, as no buffer allocated before the call is.
\<close>

theorem createPatchData_inputs_unchanged:
  assumes "createPatchData img s = (res, s')"
  shows "rowIndices s' = rowIndices s \<and> colIndices s' = colIndices s
         \<and> (dataPtr img < brk s \<longrightarrow> heap s' (dataPtr img) = heap s (dataPtr img))
         \<and> (\<forall>a. a < brk s \<longrightarrow> heap s' a = heap s a)"
proof -
  have s': "s' = snd (createPatchData img s)" using assms by simp
  show ?thesis
    unfolding s' by (simp add: createPatchData_vectors createPatchData_frame)
qed

theorem createPatchData_inputs_unchanged_witness:
  "dataPtr exampleImage < brk exampleStore
   \<and> (\<exists>res s'. createPatchData exampleImage exampleStore = (res, s')
        \<and> rowIndices s' = [1, 0, 0, 1] \<and> colIndices s' = [2, 2, 1]
        \<and> heap s' (dataPtr exampleImage) = heap exampleStore (dataPtr exampleImage)
        \<and> heap s' 0 1 2 = 12)"
proof -
  obtain res s' where c: "createPatchData exampleImage exampleStore = (res, s')"
    by (cases "createPatchData exampleImage exampleStore")
  have a: "dataPtr exampleImage < brk exampleStore"
    by (simp add: exampleImage_def exampleStore_def)
  from createPatchData_inputs_unchanged [OF c] a
  have "rowIndices s' = rowIndices exampleStore" "colIndices s' = colIndices exampleStore"
    "heap s' (dataPtr exampleImage) = heap exampleStore (dataPtr exampleImage)"
    by simp_all
  then have "rowIndices s' = [1, 0, 0, 1] \<and> colIndices s' = [2, 2, 1]
        \<and> heap s' (dataPtr exampleImage) = heap exampleStore (dataPtr exampleImage)
        \<and> heap s' 0 1 2 = 12"
    by (simp add: exampleImage_def exampleStore_def)
  with a c show ?thesis by blast
qed

text \<open>
  C10. The result of \<^verbatim>\<open>createPatchData\<close> depends only on the elements of the image
  at the positions the vectors select. Let two images have the same dimensions and
  element type, in stores holding the same vectors, let every entry of the vectors
  be a valid row or column index of the images, and let the images agree at every
  position \<open>(rowIndices[r], colIndices[c])\<close>. Then both calls return a patch, and the
  two patches have the same dimensions, element type and elements. And where two
  rows and two columns of the patch carry the same entries of the vectors, as
  reflection produces them, the two elements of the patch are equal.
\<close>

theorem createPatchData_depends_on_selected:
  assumes "rows img1 = rows img2" and "cols img1 = cols img2" and "mtype img1 = mtype img2"
    and "rowIndices s1 = rowIndices s2" and "colIndices s1 = colIndices s2"
    and "dataPtr img1 < brk s1" and "dataPtr img2 < brk s2"
    and "\<forall>y \<in> set (rowIndices s1). 0 \<le> y \<and> y < int (rows img1)"
    and "\<forall>x \<in> set (colIndices s1). 0 \<le> x \<and> x < int (cols img1)"
    and "\<forall>r c. r < length (rowIndices s1) \<and> c < length (colIndices s1) \<longrightarrow>
            heap s1 (dataPtr img1) (nat (rowIndices s1 ! r)) (nat (colIndices s1 ! c))
              = heap s2 (dataPtr img2) (nat (rowIndices s1 ! r)) (nat (colIndices s1 ! c))"
  shows "(\<exists>patch1 t1 patch2 t2.
            createPatchData img1 s1 = (Inr patch1, t1)
            \<and> createPatchData img2 s2 = (Inr patch2, t2)
            \<and> rows patch1 = rows patch2 \<and> cols patch1 = cols patch2
            \<and> mtype patch1 = mtype patch2
            \<and> matContents t1 patch1 = matContents t2 patch2)
         \<and> patchResult (createPatchData img1 s1) = patchResult (createPatchData img2 s2)
         \<and> (\<forall>patch s' r1 r2 c1 c2.
               createPatchData img1 s1 = (Inr patch, s')
               \<and> r1 < length (rowIndices s1) \<and> r2 < length (rowIndices s1)
               \<and> c1 < length (colIndices s1) \<and> c2 < length (colIndices s1)
               \<and> rowIndices s1 ! r1 = rowIndices s1 ! r2
               \<and> colIndices s1 ! c1 = colIndices s1 ! c2 \<longrightarrow>
               heap s' (dataPtr patch) r1 c1 = heap s' (dataPtr patch) r2 c2)"
proof -
  let ?p1 = "\<lparr>rows = length (rowIndices s1), cols = length (colIndices s1),
               mtype = mtype img1, dataPtr = brk s1\<rparr>"
  let ?p2 = "\<lparr>rows = length (rowIndices s1), cols = length (colIndices s1),
               mtype = mtype img1, dataPtr = brk s2\<rparr>"
  let ?t1 = "snd (createPatchData img1 s1)" and ?t2 = "snd (createPatchData img2 s2)"
  have n: "dataPtr img1 \<noteq> brk s1" "dataPtr img2 \<noteq> brk s2"
    using assms(6,7) by simp_all
  have v: "validIndices (rows img1) (rowIndices s1)" "validIndices (cols img1) (colIndices s1)"
    using assms(8,9) by (simp_all add: validIndices_set)
  note ag = createPatchData_agree [OF assms(1-5) n v assms(10)]
  obtain u1 where c1: "createPatchData img1 s1 = (Inr ?p1, u1)"
    using ag(1) by (cases "createPatchData img1 s1") simp
  obtain u2 where c2: "createPatchData img2 s2 = (Inr ?p2, u2)"
    using ag(2) by (cases "createPatchData img2 s2") simp
  have m: "matContents u1 ?p1 = matContents u2 ?p2"
    using ag(3) by (simp add: c1 c2)
  have both: "\<exists>patch1 t1 patch2 t2.
            createPatchData img1 s1 = (Inr patch1, t1)
            \<and> createPatchData img2 s2 = (Inr patch2, t2)
            \<and> rows patch1 = rows patch2 \<and> cols patch1 = cols patch2
            \<and> mtype patch1 = mtype patch2
            \<and> matContents t1 patch1 = matContents t2 patch2"
    using m by (intro exI [of _ ?p1] exI [of _ u1] exI [of _ ?p2] exI [of _ u2]) (simp add: c1 c2)
  have same: "patchResult (createPatchData img1 s1) = patchResult (createPatchData img2 s2)"
    using m by (simp add: c1 c2 patchResult_def)
  have dup: "heap s' (dataPtr patch) r1 c1 = heap s' (dataPtr patch) r2 c2"
    if "createPatchData img1 s1 = (Inr patch, s')
               \<and> r1 < length (rowIndices s1) \<and> r2 < length (rowIndices s1)
               \<and> c1 < length (colIndices s1) \<and> c2 < length (colIndices s1)
               \<and> rowIndices s1 ! r1 = rowIndices s1 ! r2
               \<and> colIndices s1 ! c1 = colIndices s1 ! c2"
    for patch s' r1 r2 c1 c2
    using that n(1) by (intro createPatchData_duplicates [of img1 s1 patch s' r1 r2 c1 c2]) simp_all
  from both same dup show ?thesis by blast
qed

theorem createPatchData_depends_on_selected_witness:
  "rows exampleImage = rows otherImage \<and> cols exampleImage = cols otherImage
   \<and> mtype exampleImage = mtype otherImage
   \<and> rowIndices exampleStore = rowIndices otherStore
   \<and> colIndices exampleStore = colIndices otherStore
   \<and> dataPtr exampleImage < brk exampleStore \<and> dataPtr otherImage < brk otherStore
   \<and> list_all (\<lambda>y. 0 \<le> y \<and> y < int (rows exampleImage)) (rowIndices exampleStore)
   \<and> list_all (\<lambda>x. 0 \<le> x \<and> x < int (cols exampleImage)) (colIndices exampleStore)
   \<and> heap exampleStore (dataPtr exampleImage) 0 0 \<noteq> heap otherStore (dataPtr otherImage) 0 0
   \<and> (\<exists>patch1 t1 patch2 t2.
         createPatchData exampleImage exampleStore = (Inr patch1, t1)
         \<and> createPatchData otherImage otherStore = (Inr patch2, t2)
         \<and> matContents t1 patch1 = [[12, 12, 11], [2, 2, 1], [2, 2, 1], [12, 12, 11]]
         \<and> matContents t2 patch2 = [[12, 12, 11], [2, 2, 1], [2, 2, 1], [12, 12, 11]])
   \<and> patchResult (createPatchData otherImage otherStore)
       = patchResult (createPatchData exampleImage exampleStore)
   \<and> (\<exists>patch s'. createPatchData exampleImage exampleStore = (Inr patch, s')
         \<and> rowIndices exampleStore ! 1 = rowIndices exampleStore ! 2
         \<and> colIndices exampleStore ! 0 = colIndices exampleStore ! 1
         \<and> heap s' (dataPtr patch) 1 0 = heap s' (dataPtr patch) 2 1)"
proof -
  have h: "rows exampleImage = rows otherImage" "cols exampleImage = cols otherImage"
    "mtype exampleImage = mtype otherImage"
    "rowIndices exampleStore = rowIndices otherStore"
    "colIndices exampleStore = colIndices otherStore"
    "dataPtr exampleImage < brk exampleStore" "dataPtr otherImage < brk otherStore"
    "\<forall>y \<in> set (rowIndices exampleStore). 0 \<le> y \<and> y < int (rows exampleImage)"
    "\<forall>x \<in> set (colIndices exampleStore). 0 \<le> x \<and> x < int (cols exampleImage)"
    by (simp_all add: exampleImage_def exampleStore_def otherImage_def otherStore_def)
  have g: "\<forall>r c. r < length (rowIndices exampleStore) \<and> c < length (colIndices exampleStore) \<longrightarrow>
            heap exampleStore (dataPtr exampleImage)
                (nat (rowIndices exampleStore ! r)) (nat (colIndices exampleStore ! c))
              = heap otherStore (dataPtr otherImage)
                (nat (rowIndices exampleStore ! r)) (nat (colIndices exampleStore ! c))"
    by (auto simp: exampleImage_def exampleStore_def otherImage_def otherStore_def
          nth_Cons' less_Suc_eq numeral_3_eq_3)
  note t = createPatchData_depends_on_selected [OF h g]
  from t obtain patch1 t1 patch2 t2 where
    c: "createPatchData exampleImage exampleStore = (Inr patch1, t1)"
       "createPatchData otherImage otherStore = (Inr patch2, t2)"
    and m: "matContents t1 patch1 = matContents t2 patch2"
    by blast
  have "patchResult (createPatchData exampleImage exampleStore)
       = Inr (4, 3, 0, [[12, 12, 11], [2, 2, 1], [2, 2, 1], [12, 12, 11]])"
    by code_simp
  then have v: "matContents t1 patch1 = [[12, 12, 11], [2, 2, 1], [2, 2, 1], [12, 12, 11]]"
    by (simp add: c(1) patchResult_def)
  from t have same: "patchResult (createPatchData otherImage otherStore)
       = patchResult (createPatchData exampleImage exampleStore)"
    by simp
  have i: "rowIndices exampleStore ! 1 = rowIndices exampleStore ! 2"
    "colIndices exampleStore ! 0 = colIndices exampleStore ! 1"
    "1 < length (rowIndices exampleStore)" "2 < length (rowIndices exampleStore)"
    "0 < length (colIndices exampleStore)" "1 < length (colIndices exampleStore)"
    by (simp_all add: exampleStore_def)
  from t c(1) i have d: "heap t1 (dataPtr patch1) 1 0 = heap t1 (dataPtr patch1) 2 1"
    by blast
  have ne: "heap exampleStore (dataPtr exampleImage) 0 0 \<noteq> heap otherStore (dataPtr otherImage) 0 0"
    by (simp add: exampleImage_def exampleStore_def otherImage_def otherStore_def)
  have l: "list_all (\<lambda>y. 0 \<le> y \<and> y < int (rows exampleImage)) (rowIndices exampleStore)"
    "list_all (\<lambda>x. 0 \<le> x \<and> x < int (cols exampleImage)) (colIndices exampleStore)"
    using h(8,9) by (simp_all add: list_all_iff)
  have e1: "\<exists>patch1 t1 patch2 t2.
         createPatchData exampleImage exampleStore = (Inr patch1, t1)
         \<and> createPatchData otherImage otherStore = (Inr patch2, t2)
         \<and> matContents t1 patch1 = [[12, 12, 11], [2, 2, 1], [2, 2, 1], [12, 12, 11]]
         \<and> matContents t2 patch2 = [[12, 12, 11], [2, 2, 1], [2, 2, 1], [12, 12, 11]]"
    using c m v by auto
  have e2: "\<exists>patch s'. createPatchData exampleImage exampleStore = (Inr patch, s')
         \<and> rowIndices exampleStore ! 1 = rowIndices exampleStore ! 2
         \<and> colIndices exampleStore ! 0 = colIndices exampleStore ! 1
         \<and> heap s' (dataPtr patch) 1 0 = heap s' (dataPtr patch) 2 1"
    using c(1) i d by blast
  from h(1-7) l ne e1 same e2 show ?thesis by blast
qed

end
